theory Spec2Isabelle
  imports Complex_Main "HOL-Library.AList" "HOL-Library.Sublist"
begin

section \<open>The retrieval engine of \<^verbatim>\<open>app/rag_engine.py\<close>\<close>

text \<open>
  The class \<^verbatim>\<open>RAGEngine\<close> keeps an inner-product index and the list of entries
  (\<^verbatim>\<open>self.faqs\<close>) whose position is the row of the index. The embedding below follows
  the class method by method. What the class takes from libraries (the sentence encoder,
  the vector arithmetic of the index, the rendering of a float by \<^verbatim>\<open>str\<close>) is a
  parameter; exceptions are values of type \<open>error\<close> (a call that raises ends there,
  and what it leaves in the engine is not followed further); the entries are dictionaries
  living in a heap of objects, so that copying an entry and changing an entry are different
  things.
\<close>

subsection \<open>Values, dictionaries, errors\<close>

text \<open>A JSON atom, as it sits in a dictionary: a string, an integer or a float.\<close>

datatype json = JStr string | JInt int | JFloat real

text \<open>
  A Python \<^verbatim>\<open>dict\<close> with string keys, in insertion order. \<^verbatim>\<open>d[k] = v\<close> is
  \<open>AList.update k v d\<close>: it replaces the value of an existing key where it stands and
  appends a new key at the end.
\<close>

type_synonym pydict = "(string \<times> json) list"

datatype error = KeyError string | IndexError | FileNotFoundError | AssertionError | AttributeError

text \<open>\<^verbatim>\<open>d[k]\<close>: raises \<^verbatim>\<open>KeyError\<close> for a missing key.\<close>

definition dict_getitem :: "pydict \<Rightarrow> string \<Rightarrow> error + json" where
  "dict_getitem d k = (case map_of d k of None \<Rightarrow> Inl (KeyError k) | Some v \<Rightarrow> Inr v)"

text \<open>\<^verbatim>\<open>xs[i]\<close> on a list: a negative index counts from the end; out of range raises.\<close>

definition list_getitem :: "'a list \<Rightarrow> int \<Rightarrow> error + 'a" where
  "list_getitem xs i =
     (if 0 \<le> i \<and> i < int (length xs) then Inr (xs ! nat i)
      else if i < 0 \<and> - int (length xs) \<le> i then Inr (xs ! nat (int (length xs) + i))
      else Inl IndexError)"

subsection \<open>Rendering values inside an f-string\<close>

fun digits_nat :: "nat \<Rightarrow> string" where
  "digits_nat n =
     (if n < 10 then [''0123456789'' ! n]
      else digits_nat (n div 10) @ [''0123456789'' ! (n mod 10)])"

declare digits_nat.simps [simp del]

definition str_int :: "int \<Rightarrow> string" where
  "str_int i = (if i < 0 then CHR ''-'' # digits_nat (nat (- i)) else digits_nat (nat i))"

text \<open>
  The library functions the engine calls. \<open>encode\<close> is the sentence encoder on one text
  (a batch is encoded text by text), \<open>normalize_L2\<close> and \<open>astype_float32\<close> act on one
  vector, \<open>inner_product\<close> is the score of the flat inner-product index, and
  \<open>float_str\<close> is Python's \<^verbatim>\<open>str\<close> on a float.
\<close>

record 'v externals =
  encode :: "string \<Rightarrow> 'v"
  normalize_L2 :: "'v \<Rightarrow> 'v"
  astype_float32 :: "'v \<Rightarrow> 'v"
  inner_product :: "'v \<Rightarrow> 'v \<Rightarrow> real"
  float_str :: "real \<Rightarrow> string"

text \<open>What \<^verbatim>\<open>f"{v}"\<close> inserts for a value \<open>v\<close>.\<close>

fun py_str :: "'v externals \<Rightarrow> json \<Rightarrow> string" where
  "py_str X (JStr s) = s"
| "py_str X (JInt i) = str_int i"
| "py_str X (JFloat r) = float_str X r"

text \<open>\<^verbatim>\<open>sep.join(xs)\<close>\<close>

fun join :: "string \<Rightarrow> string list \<Rightarrow> string" where
  "join sep [] = []"
| "join sep [x] = x"
| "join sep (x # y # ys) = x @ sep @ join sep (y # ys)"

subsection \<open>Paths\<close>

text \<open>
  \<^verbatim>\<open>s.replace(old, new)\<close>: every occurrence of \<open>old\<close>, left to right, without
  overlap. With an empty \<open>old\<close>, Python puts \<open>new\<close> before every character and at the end.
\<close>

function replace_from :: "string \<Rightarrow> string \<Rightarrow> string \<Rightarrow> string" where
  "replace_from old new s =
     (if old = [] \<or> s = [] then s
      else if take (length old) s = old then new @ replace_from old new (drop (length old) s)
      else hd s # replace_from old new (tl s))"
  by pat_completeness auto
termination
  by (relation "measure (\<lambda>(old, new, s). length s)") (auto simp: neq_Nil_conv)

declare replace_from.simps [simp del]

definition replace :: "string \<Rightarrow> string \<Rightarrow> string \<Rightarrow> string" where
  "replace old new s =
     (if old = [] then new @ concat (map (\<lambda>c. c # new) s) else replace_from old new s)"

text \<open>\<^verbatim>\<open>self.index_path.replace('.bin', '_faqs.pkl')\<close>\<close>

definition faq_data_path :: "string \<Rightarrow> string" where
  "faq_data_path p = replace ''.bin'' ''_faqs.pkl'' p"

text \<open>
  \<^verbatim>\<open>os.path.dirname\<close> (POSIX): the part up to the last slash, without its trailing
  slashes unless it consists of slashes only.
\<close>

definition dirname :: "string \<Rightarrow> string" where
  "dirname p =
     (let head = rev (dropWhile (\<lambda>c. c \<noteq> CHR ''/'') (rev p))
      in if head \<noteq> [] \<and> \<not> list_all (\<lambda>c. c = CHR ''/'') head
         then rev (dropWhile (\<lambda>c. c = CHR ''/'') (rev head)) else head)"

text \<open>
  \<^verbatim>\<open>os.makedirs(d, exist_ok=True)\<close> over the set of directories that exist: it
  creates \<open>d\<close> and every missing directory above it, and raises
  \<^verbatim>\<open>FileNotFoundError\<close> for the empty path.
\<close>

fun ancestors :: "string \<Rightarrow> string \<Rightarrow> string list" where
  "ancestors seen [] = []"
| "ancestors seen (c # cs) =
     (if c = CHR ''/'' \<and> seen \<noteq> [] then seen # ancestors (seen @ [c]) cs
      else ancestors (seen @ [c]) cs)"

definition makedirs :: "string \<Rightarrow> string set \<Rightarrow> error + string set" where
  "makedirs d ds =
     (if d = [] then Inl FileNotFoundError else Inr (ds \<union> set (ancestors [] d) \<union> {d}))"

subsection \<open>Orders, files, the engine\<close>

text \<open>An order record of the order database, with the fields the engine reads.\<close>

record item =
  name :: json
  quantity :: json

record order =
  order_id :: json
  customer_name :: json
  restaurant :: json
  items :: "item list"
  total_amount :: json
  status :: json
  delivery_address :: json

text \<open>
  A file written by the engine: the index blob (its rows) or the pickled entry list
  (the dictionaries by value). \<open>OtherFile\<close> is any content neither reader accepts.
\<close>

datatype 'v artifact = IndexFile "'v list" | PickleFile "pydict list" | OtherFile

text \<open>A JSON source: absent (\<^verbatim>\<open>FileNotFoundError\<close>), unparsable (\<^verbatim>\<open>JSONDecodeError\<close>) or parsed.\<close>

datatype 'a source = Missing | Malformed | Content 'a

text \<open>
  The engine and the world it acts on. \<open>index\<close> is \<^verbatim>\<open>self.index\<close> (\<open>None\<close> until
  loaded or built; otherwise the rows of the flat index, row \<open>i\<close> at position \<open>i\<close>);
  \<open>faqs\<close> is \<^verbatim>\<open>self.faqs\<close>, a list of references into \<open>heap\<close>, the dictionaries
  allocated so far; \<open>files\<close> are the persisted artifacts by path and \<open>dirs\<close> the
  directories that exist; \<open>faq_json\<close> and
  \<open>order_json\<close> are \<^verbatim>\<open>data/faqs.json\<close> and \<^verbatim>\<open>data/order_database.json\<close>;
  \<open>encode_log\<close> records every batch handed to the encoder.
\<close>

record 'v engine =
  index_path :: string
  index :: "'v list option"
  faqs :: "nat list"
  heap :: "pydict list"
  files :: "string \<rightharpoonup> 'v artifact"
  dirs :: "string set"
  faq_json :: "pydict list source"
  order_json :: "order list source"
  encode_log :: "string list list"

text \<open>The entries the engine holds, by value, in order.\<close>

definition entries :: "'v engine \<Rightarrow> pydict list" where
  "entries s = map (\<lambda>a. heap s ! a) (faqs s)"

text \<open>Allocating fresh dictionaries: they go to the end of the heap.\<close>

definition alloc :: "pydict list \<Rightarrow> pydict list \<Rightarrow> nat list \<times> pydict list" where
  "alloc h ds = ([length h ..< length h + length ds], h @ ds)"

subsection \<open>\<^verbatim>\<open>load_faqs\<close> and \<^verbatim>\<open>load_order_data\<close>\<close>

definition load_faqs :: "'v engine \<Rightarrow> nat list \<times> 'v engine" where
  "load_faqs s =
     (case faq_json s of
        Content fs \<Rightarrow>
          (let (refs, h) = alloc (heap s) fs
           in (refs, s\<lparr>heap := h, faqs := refs\<rparr>))
      | Missing \<Rightarrow> ([], s)
      | Malformed \<Rightarrow> ([], s))"

definition items_text :: "'v externals \<Rightarrow> item list \<Rightarrow> string" where
  "items_text X its =
     join '', '' (map (\<lambda>it. py_str X (name it) @ '' (x'' @ py_str X (quantity it) @ '')'') its)"

definition order_faq :: "'v externals \<Rightarrow> order \<Rightarrow> pydict" where
  "order_faq X ord =
     [(''question'', JStr (''Order '' @ py_str X (order_id ord) @ '' details'')),
      (''answer'', JStr (''Order ID: '' @ py_str X (order_id ord)
          @ '', Customer: '' @ py_str X (customer_name ord)
          @ '', Restaurant: '' @ py_str X (restaurant ord)
          @ '', Items: '' @ items_text X (items ord)
          @ '', Total: $'' @ py_str X (total_amount ord)
          @ '', Status: '' @ py_str X (status ord)
          @ '', Delivery Address: '' @ py_str X (delivery_address ord))),
      (''category'', JStr ''order_data''),
      (''order_id'', order_id ord)]"

definition load_order_data :: "'v externals \<Rightarrow> 'v engine \<Rightarrow> nat list \<times> 'v engine" where
  "load_order_data X s =
     (case order_json s of
        Content orders \<Rightarrow>
          (let (order_faqs, h) = alloc (heap s) (map (order_faq X) orders)
           in (order_faqs, s\<lparr>heap := h\<rparr>))
      | Missing \<Rightarrow> ([], s)
      | Malformed \<Rightarrow> ([], s))"

subsection \<open>\<^verbatim>\<open>create_embeddings\<close> and \<^verbatim>\<open>build_index\<close>\<close>

text \<open>The loop over \<^verbatim>\<open>self.faqs\<close> that forms \<^verbatim>\<open>f"{faq['question']} {faq['answer']}"\<close>.\<close>

fun combined_texts :: "'v externals \<Rightarrow> pydict list \<Rightarrow> error + string list" where
  "combined_texts X [] = Inr []"
| "combined_texts X (faq # rest) =
     (case dict_getitem faq ''question'' of
        Inl e \<Rightarrow> Inl e
      | Inr q \<Rightarrow>
         (case dict_getitem faq ''answer'' of
            Inl e \<Rightarrow> Inl e
          | Inr a \<Rightarrow>
             (case combined_texts X rest of
                Inl e \<Rightarrow> Inl e
              | Inr texts \<Rightarrow> Inr ((py_str X q @ '' '' @ py_str X a) # texts))))"

definition create_embeddings :: "'v externals \<Rightarrow> 'v engine \<Rightarrow> error + ('v list \<times> 'v engine)" where
  "create_embeddings X s =
     (let s1 = (if faqs s = [] then snd (load_faqs s) else s);
          (order_faqs, s2) = load_order_data X s1;
          s3 = s2\<lparr>faqs := faqs s2 @ order_faqs\<rparr>
      in case combined_texts X (entries s3) of
           Inl e \<Rightarrow> Inl e
         | Inr texts \<Rightarrow>
             Inr (map (encode X) texts, s3\<lparr>encode_log := encode_log s3 @ [texts]\<rparr>))"

text \<open>
  \<^verbatim>\<open>build_index\<close>: a new empty flat index, to which the normalised rows are added in
  order. For an empty batch the encoder answers with an array of one dimension, and
  \<^verbatim>\<open>faiss.normalize_L2\<close>, which reads the second dimension, raises
  \<^verbatim>\<open>IndexError\<close>.
\<close>

definition build_index :: "'v externals \<Rightarrow> 'v engine \<Rightarrow> error + ('v list \<times> 'v engine)" where
  "build_index X s =
     (case create_embeddings X s of
        Inl e \<Rightarrow> Inl e
      | Inr (embeddings, s1) \<Rightarrow>
          if embeddings = [] then Inl IndexError
          else (let rows = [] @ map (\<lambda>v. astype_float32 X (normalize_L2 X v)) embeddings
                in Inr (rows, s1\<lparr>index := Some rows\<rparr>)))"

subsection \<open>\<^verbatim>\<open>save_index\<close> and \<^verbatim>\<open>load_index\<close>\<close>

text \<open>
  \<^verbatim>\<open>save_index\<close>: the directory of the index path is created, the index is written,
  then the pickle of the entries at the sibling path. \<^verbatim>\<open>open(path, 'wb')\<close> raises
  \<^verbatim>\<open>FileNotFoundError\<close> when the directory of the sibling path does not exist (an
  empty directory part is the current directory).
\<close>

definition save_index :: "'v engine \<Rightarrow> error + 'v engine" where
  "save_index s =
     (case index s of
        None \<Rightarrow> Inr s
      | Some rows \<Rightarrow>
          (case makedirs (dirname (index_path s)) (dirs s) of
             Inl e \<Rightarrow> Inl e
           | Inr ds \<Rightarrow>
               (let written = (files s)(index_path s \<mapsto> IndexFile rows);
                    faq_path = faq_data_path (index_path s)
                in if dirname faq_path = [] \<or> dirname faq_path \<in> ds
                   then Inr (s\<lparr>dirs := ds,
                               files := written(faq_path \<mapsto> PickleFile (entries s))\<rparr>)
                   else Inl FileNotFoundError)))"

text \<open>
  \<^verbatim>\<open>load_index\<close>: \<^verbatim>\<open>self.index\<close> is assigned as soon as the index file is read;
  every exception of either read is caught and turns into \<^verbatim>\<open>False\<close>.
\<close>

definition load_index :: "'v engine \<Rightarrow> bool \<times> 'v engine" where
  "load_index s =
     (case files s (index_path s) of
        Some (IndexFile rows) \<Rightarrow>
          (let s1 = s\<lparr>index := Some rows\<rparr>
           in case files s1 (faq_data_path (index_path s1)) of
                Some (PickleFile ds) \<Rightarrow>
                  (let (refs, h) = alloc (heap s1) ds
                   in (True, s1\<lparr>heap := h, faqs := refs\<rparr>))
              | Some _ \<Rightarrow> (False, s1)
              | None \<Rightarrow> (False, s1))
      | Some _ \<Rightarrow> (False, s)
      | None \<Rightarrow> (False, s))"

subsection \<open>\<^verbatim>\<open>search\<close>\<close>

text \<open>
  The flat inner-product index of the library, as \<^verbatim>\<open>self.index.search(q, k)\<close> answers:
  always \<open>k\<close> pairs of score and row label, best score first; among equal scores
  the library returns the higher row first (the specification words it the other way
  round); when the index has fewer than \<open>k\<close> rows the missing places hold the label
  \<open>-1\<close> and the lowest float.
\<close>

definition lowest_float :: real where
  "lowest_float = - 340282346638528859811704183484516925440"

definition IndexFlatIP_search ::
  "'v externals \<Rightarrow> 'v list \<Rightarrow> 'v \<Rightarrow> nat \<Rightarrow> (real \<times> int) list" where
  "IndexFlatIP_search X rows q k =
     (let scored = zip (map (inner_product X q) rows) (map int [0 ..< length rows]);
          top = take k (rev (sort_key (\<lambda>(score, idx). score) scored))
      in top @ replicate (k - length top) (lowest_float, - 1))"

text \<open>The loop of \<^verbatim>\<open>search\<close> over \<^verbatim>\<open>zip(scores[0], indices[0])\<close>.\<close>

fun collect_results :: "nat list \<Rightarrow> (real \<times> int) list \<Rightarrow> error + (nat \<times> real) list" where
  "collect_results fs [] = Inr []"
| "collect_results fs ((score, idx) # rest) =
     (if idx < int (length fs) then
        (case list_getitem fs idx of
           Inl e \<Rightarrow> Inl e
         | Inr faq \<Rightarrow>
            (case collect_results fs rest of
               Inl e \<Rightarrow> Inl e
             | Inr results \<Rightarrow> Inr ((faq, score) # results)))
      else collect_results fs rest)"

text \<open>The first lines of \<^verbatim>\<open>search\<close>: load the index if there is none, else build and save.\<close>

definition ensure_index :: "'v externals \<Rightarrow> 'v engine \<Rightarrow> error + 'v engine" where
  "ensure_index X s =
     (if index s = None then
        (let (ok, s1) = load_index s
         in if \<not> ok then
              (case build_index X s1 of
                 Inl e \<Rightarrow> Inl e
               | Inr (_, s2) \<Rightarrow> save_index s2)
            else Inr s1)
      else Inr s)"

text \<open>
  \<^verbatim>\<open>search(query, k)\<close>. The library's search asserts \<open>k > 0\<close>. The result pairs a
  reference to the entry with the score.
\<close>

definition search ::
  "'v externals \<Rightarrow> 'v engine \<Rightarrow> string \<Rightarrow> nat \<Rightarrow> error + ((nat \<times> real) list \<times> 'v engine)" where
  "search X s query k =
     (case ensure_index X s of
        Inl e \<Rightarrow> Inl e
      | Inr s1 \<Rightarrow>
          (let query_embedding = normalize_L2 X (encode X query);
               s2 = s1\<lparr>encode_log := encode_log s1 @ [[query]]\<rparr>
           in case index s2 of
                None \<Rightarrow> Inl AttributeError
              | Some rows \<Rightarrow>
                  if k = 0 then Inl AssertionError
                  else (case collect_results (faqs s2)
                               (IndexFlatIP_search X rows (astype_float32 X query_embedding) k) of
                          Inl e \<Rightarrow> Inl e
                        | Inr results \<Rightarrow> Inr (results, s2))))"

subsection \<open>\<^verbatim>\<open>get_relevant_faqs\<close> and \<^verbatim>\<open>initialize\<close>\<close>

text \<open>
  The loop of \<^verbatim>\<open>get_relevant_faqs\<close>: \<^verbatim>\<open>faq.copy()\<close> allocates a new dictionary with
  the items of the old one, and the score is stored in the copy.
\<close>

fun relevant_loop ::
  "(nat \<times> real) list \<Rightarrow> real \<Rightarrow> pydict list \<Rightarrow> nat list \<times> pydict list" where
  "relevant_loop [] threshold h = ([], h)"
| "relevant_loop ((faq, score) # rest) threshold h =
     (if score \<ge> threshold then
        (let faq_with_score = AList.update ''similarity_score'' (JFloat score) (h ! faq);
             (relevant_faqs, h') = relevant_loop rest threshold (h @ [faq_with_score])
         in (length h # relevant_faqs, h'))
      else relevant_loop rest threshold h)"

definition get_relevant_faqs ::
  "'v externals \<Rightarrow> 'v engine \<Rightarrow> string \<Rightarrow> real \<Rightarrow> error + (nat list \<times> 'v engine)" where
  "get_relevant_faqs X s query threshold =
     (case search X s query 5 of
        Inl e \<Rightarrow> Inl e
      | Inr (results, s1) \<Rightarrow>
          (let (relevant_faqs, h) = relevant_loop results threshold (heap s1)
           in Inr (relevant_faqs, s1\<lparr>heap := h\<rparr>)))"

definition initialize :: "'v externals \<Rightarrow> 'v engine \<Rightarrow> error + 'v engine" where
  "initialize X s =
     (let (ok, s1) = load_index s
      in if \<not> ok then
           (case build_index X s1 of
              Inl e \<Rightarrow> Inl e
            | Inr (_, s2) \<Rightarrow> save_index s2)
         else Inr s1)"

text \<open>
  \<^verbatim>\<open>RAGEngine()\<close>: the engine as the constructor leaves it, in a given world; the
  directory \<^verbatim>\<open>data\<close> of the sources exists.
\<close>

definition new_engine ::
  "string \<Rightarrow> (string \<rightharpoonup> 'v artifact) \<Rightarrow> pydict list source \<Rightarrow> order list source \<Rightarrow> 'v engine" where
  "new_engine path fs fj oj =
     \<lparr>index_path = path, index = None, faqs = [], heap = [], files = fs, dirs = {''data''},
      faq_json = fj, order_json = oj, encode_log = []\<rparr>"

section \<open>Properties\<close>

subsection \<open>Views, invariants and the words of the specification\<close>

text \<open>No dangling reference: every entry of \<^verbatim>\<open>self.faqs\<close> is an allocated dictionary.\<close>

definition refs_ok :: "'v engine \<Rightarrow> bool" where
  "refs_ok s = list_all (\<lambda>a. a < length (heap s)) (faqs s)"

text \<open>What a source contributes: its records, or nothing when it is absent or unparsable.\<close>

definition source_content :: "'a list source \<Rightarrow> 'a list" where
  "source_content src = (case src of Content xs \<Rightarrow> xs | Missing \<Rightarrow> [] | Malformed \<Rightarrow> [])"


text \<open>The values behind what \<^verbatim>\<open>search\<close> and \<^verbatim>\<open>get_relevant_faqs\<close> return.\<close>

definition returned_results :: "(nat \<times> real) list \<times> 'v engine \<Rightarrow> (pydict \<times> real) list" where
  "returned_results r = map (\<lambda>(faq, score). (heap (snd r) ! faq, score)) (fst r)"

definition returned_entries :: "nat list \<times> 'v engine \<Rightarrow> pydict list" where
  "returned_entries r = map (\<lambda>a. heap (snd r) ! a) (fst r)"

text \<open>
  The specification of \<^verbatim>\<open>relevant\<close>, in its words: remove the results whose score is
  below the threshold, and give every surviving entry the field
  \<^verbatim>\<open>similarity_score\<close>, set to its score.
\<close>

definition annotate :: "pydict \<times> real \<Rightarrow> pydict" where
  "annotate r = AList.update ''similarity_score'' (JFloat (snd r)) (fst r)"

definition relevant_spec :: "real \<Rightarrow> (pydict \<times> real) list \<Rightarrow> pydict list" where
  "relevant_spec threshold results = map annotate (filter (\<lambda>r. \<not> snd r < threshold) results)"


subsection \<open>A small world to run the engine in\<close>

text \<open>
  One-dimensional embeddings: a text without the letter r goes to \<open>0\<close>, a text with
  the letter r and a dollar sign to \<open>-2\<close>, any other text to \<open>3\<close>; normalising
  divides by the absolute value and leaves \<open>0\<close> alone; the inner product is the
  product. The three entries of the examples get three different scores, and no float
  is rendered.
\<close>

definition toy_externals :: "real externals" where
  "toy_externals =
     \<lparr>encode = (\<lambda>t. if CHR ''r'' \<notin> set t then 0 else if CHR ''$'' \<in> set t then - 2 else 3),
      normalize_L2 = (\<lambda>v. if v = 0 then v else v / \<bar>v\<bar>),
      astype_float32 = (\<lambda>v. v),
      inner_product = (\<lambda>v w. v * w),
      float_str = (\<lambda>r. ''0.0'')\<rparr>"

definition refund_faq :: pydict where
  "refund_faq = [(''question'', JStr ''How do refunds work?''),
                 (''answer'', JStr ''Refunds post in 3-5 days.'')]"

definition hours_faq :: pydict where
  "hours_faq = [(''question'', JStr ''When do you close?''),
                (''answer'', JStr ''At 10pm.''),
                (''category'', JStr ''faq'')]"

definition pizza_order :: order where
  "pizza_order =
     \<lparr>order_id = JStr ''FD123456789'', customer_name = JStr ''John Doe'',
      restaurant = JStr ''Pizza Palace'',
      items = [\<lparr>name = JStr ''Margherita Pizza'', quantity = JInt 2\<rparr>,
               \<lparr>name = JStr ''Coke'', quantity = JInt 1\<rparr>],
      total_amount = JInt 25, status = JStr ''delivered'',
      delivery_address = JStr ''12 Main St''\<rparr>"

definition pizza_faq :: pydict where
  "pizza_faq =
     [(''question'', JStr ''Order FD123456789 details''),
      (''answer'', JStr ''Order ID: FD123456789, Customer: John Doe, Restaurant: Pizza Palace, Items: Margherita Pizza (x2), Coke (x1), Total: $25, Status: delivered, Delivery Address: 12 Main St''),
      (''category'', JStr ''order_data''),
      (''order_id'', JStr ''FD123456789'')]"

definition default_path :: string where
  "default_path = ''data/faiss_index.bin''"

definition corpus_texts :: "string list" where
  "corpus_texts =
     [''How do refunds work? Refunds post in 3-5 days.'',
      ''When do you close? At 10pm.'',
      ''Order FD123456789 details Order ID: FD123456789, Customer: John Doe, Restaurant: Pizza Palace, Items: Margherita Pizza (x2), Coke (x1), Total: $25, Status: delivered, Delivery Address: 12 Main St'']"

text \<open>Two FAQ entries and one order; nothing persisted yet.\<close>

definition fresh_engine :: "real engine" where
  "fresh_engine =
     new_engine default_path Map.empty (Content [refund_faq, hours_faq]) (Content [pizza_order])"

definition built_engine :: "real engine" where
  "built_engine =
     \<lparr>index_path = default_path, index = Some [1, 0, - 1], faqs = [0, 1, 2],
      heap = [refund_faq, hours_faq, pizza_faq], files = Map.empty, dirs = {''data''},
      faq_json = Content [refund_faq, hours_faq], order_json = Content [pizza_order],
      encode_log = [corpus_texts]\<rparr>"

definition rebuilt_engine :: "real engine" where
  "rebuilt_engine =
     built_engine\<lparr>index := Some [1, 0, - 1, - 1], faqs := [0, 1, 2, 3],
       heap := [refund_faq, hours_faq, pizza_faq, pizza_faq],
       encode_log := [corpus_texts, corpus_texts @ [corpus_texts ! 2]]\<rparr>"

definition ready_engine :: "real engine" where
  "ready_engine =
     built_engine\<lparr>files := [default_path \<mapsto> IndexFile [1, 0, - 1],
        ''data/faiss_index_faqs.pkl'' \<mapsto> PickleFile [refund_faq, hours_faq, pizza_faq]]\<rparr>"

definition searched_engine :: "real engine" where
  "searched_engine = ready_engine\<lparr>encode_log := [corpus_texts, [''refund time'']]\<rparr>"

definition refund_scored :: pydict where
  "refund_scored = refund_faq @ [(''similarity_score'', JFloat 1)]"

definition pizza_scored :: pydict where
  "pizza_scored = pizza_faq @ [(''similarity_score'', JFloat (- 1))]"

definition hours_scored :: pydict where
  "hours_scored = hours_faq @ [(''similarity_score'', JFloat 0)]"

text \<open>One FAQ entry, no order: before the build and after it.\<close>

definition one_faq_fresh :: "real engine" where
  "one_faq_fresh = new_engine default_path Map.empty (Content [refund_faq]) Missing"

definition one_faq_engine :: "real engine" where
  "one_faq_engine =
     \<lparr>index_path = default_path, index = Some [1], faqs = [0], heap = [refund_faq],
      files = Map.empty, dirs = {''data''}, faq_json = Content [refund_faq],
      order_json = Missing,
      encode_log = [[''How do refunds work? Refunds post in 3-5 days.'']]\<rparr>"

text \<open>No entry at all: an engine before the build, and one that holds a zero-row index.\<close>

definition empty_engine :: "real engine" where
  "empty_engine = new_engine default_path Map.empty (Content []) Missing"

definition empty_built :: "real engine" where
  "empty_built = empty_engine\<lparr>index := Some [], encode_log := [[]]\<rparr>"



text \<open>
  An index path without \<^verbatim>\<open>.bin\<close>, for which the entries artifact has the path of
  the index artifact: the engine before a first \<^verbatim>\<open>initialize\<close>, after it, and after
  a second one.
\<close>

definition plain_path_engine :: "real engine" where
  "plain_path_engine =
     new_engine ''data/index'' Map.empty (Content [refund_faq]) (Content [pizza_order])"

definition plain_path_ready :: "real engine" where
  "plain_path_ready =
     \<lparr>index_path = ''data/index'', index = Some [1, - 1], faqs = [0, 1],
      heap = [refund_faq, pizza_faq],
      files = [''data/index'' \<mapsto> PickleFile [refund_faq, pizza_faq]], dirs = {''data''},
      faq_json = Content [refund_faq], order_json = Content [pizza_order],
      encode_log = [[corpus_texts ! 0, corpus_texts ! 2]]\<rparr>"

definition plain_path_again :: "real engine" where
  "plain_path_again =
     plain_path_ready\<lparr>index := Some [1, - 1, - 1], faqs := [0, 1, 2],
       heap := [refund_faq, pizza_faq, pizza_faq],
       files := [''data/index'' \<mapsto> PickleFile [refund_faq, pizza_faq, pizza_faq]],
       encode_log := [[corpus_texts ! 0, corpus_texts ! 2],
                      [corpus_texts ! 0, corpus_texts ! 2, corpus_texts ! 2]]\<rparr>"

text \<open>An index path whose directory part contains \<^verbatim>\<open>.bin\<close>.\<close>

definition bin_directory_engine :: "real engine" where
  "bin_directory_engine = built_engine\<lparr>index_path := ''a.bin/i.bin''\<rparr>"

subsection \<open>The heap and the references of the engine\<close>

lemma nth_fresh: "map (\<lambda>a. (h @ ds) ! a) [length h ..< length h + length ds] = ds"
  by (rule nth_equalityI) (auto simp: nth_append)

lemma map_nth_append_old:
  "list_all (\<lambda>a. a < length h) refs \<Longrightarrow> map (\<lambda>a. (h @ ds) ! a) refs = map (\<lambda>a. h ! a) refs"
  by (induction refs) (auto simp: nth_append)

lemma load_index_inv:
  assumes "load_index s = (ok, s')" "refs_ok s"
  shows "refs_ok s' \<and> prefix (heap s) (heap s')"
  using assms
  by (auto simp: load_index_def refs_ok_def alloc_def Let_def list_all_iff
      split: option.splits artifact.splits)

lemma load_faqs_inv:
  assumes "load_faqs s = (r, s')" "refs_ok s"
  shows "refs_ok s' \<and> prefix (heap s) (heap s')"
  using assms
  by (auto simp: load_faqs_def refs_ok_def alloc_def Let_def list_all_iff split: source.splits)

lemma load_order_data_inv:
  assumes "load_order_data X s = (r, s')" "refs_ok s"
  shows "refs_ok (s'\<lparr>faqs := faqs s' @ r\<rparr>) \<and> prefix (heap s) (heap s')"
  using assms
  by (fastforce simp: load_order_data_def refs_ok_def alloc_def Let_def list_all_iff
      split: source.splits)

lemma create_embeddings_inv:
  assumes "create_embeddings X s = Inr (emb, s')" "refs_ok s"
  shows "refs_ok s' \<and> prefix (heap s) (heap s')"
proof -
  define s1 where "s1 = (if faqs s = [] then snd (load_faqs s) else s)"
  obtain r s2 where l: "load_order_data X s1 = (r, s2)" by (cases "load_order_data X s1")
  have 1: "refs_ok s1 \<and> prefix (heap s) (heap s1)"
    using load_faqs_inv[of s "fst (load_faqs s)" "snd (load_faqs s)"] assms(2)
    by (simp add: s1_def)
  have 2: "refs_ok (s2\<lparr>faqs := faqs s2 @ r\<rparr>) \<and> prefix (heap s1) (heap s2)"
    using load_order_data_inv[OF l] 1 by simp
  from assms(1) have "refs_ok s' = refs_ok (s2\<lparr>faqs := faqs s2 @ r\<rparr>) \<and> heap s' = heap s2"
    unfolding create_embeddings_def s1_def[symmetric] Let_def l
    by (auto split: sum.splits simp: refs_ok_def)
  with 1 2 show ?thesis by (auto intro: prefix_order.trans)
qed

lemma build_index_inv:
  assumes "build_index X s = Inr (rows, s')" "refs_ok s"
  shows "refs_ok s' \<and> prefix (heap s) (heap s') \<and> index s' = Some rows"
  using assms create_embeddings_inv[of X s]
  by (auto simp: build_index_def refs_ok_def Let_def split: sum.splits prod.splits if_splits)

lemma save_index_inv:
  assumes "save_index s = Inr s'"
  shows "faqs s' = faqs s \<and> heap s' = heap s \<and> index s' = index s"
  using assms by (auto simp: save_index_def Let_def split: option.splits sum.splits if_splits)

lemma ensure_index_inv:
  assumes "ensure_index X s = Inr s'" "refs_ok s"
  shows "refs_ok s' \<and> prefix (heap s) (heap s') \<and> index s' \<noteq> None
     \<and> (index s \<noteq> None \<longrightarrow> s' = s)"
proof (cases "index s = None")
  case False
  with assms show ?thesis by (simp add: ensure_index_def)
next
  case True
  obtain ok s1 where l: "load_index s = (ok, s1)" by (cases "load_index s")
  note i1 = load_index_inv[OF l assms(2)]
  show ?thesis
  proof (cases ok)
    case True
    with assms(1) l \<open>index s = None\<close> have "s' = s1" by (simp add: ensure_index_def)
    moreover from l True have "index s1 \<noteq> None"
      by (auto simp: load_index_def Let_def alloc_def split: option.splits artifact.splits)
    ultimately show ?thesis using i1 \<open>index s = None\<close> by simp
  next
    case False
    with assms(1) l \<open>index s = None\<close> obtain rows s2 where
      b: "build_index X s1 = Inr (rows, s2)" and sv: "save_index s2 = Inr s'"
      by (auto simp: ensure_index_def split: sum.splits)
    from build_index_inv[OF b] i1 save_index_inv[OF sv] \<open>index s = None\<close> show ?thesis
      by (auto simp: refs_ok_def intro: prefix_order.trans)
  qed
qed

subsection \<open>The loop of \<^verbatim>\<open>search\<close>\<close>

lemma IndexFlatIP_search_length: "length (IndexFlatIP_search X rows q k) = k"
  by (simp add: IndexFlatIP_search_def Let_def)

lemma collect_results_length:
  "collect_results fs raw = Inr rs \<Longrightarrow> length rs \<le> length raw"
proof (induction raw arbitrary: rs)
  case Nil
  then show ?case by simp
next
  case (Cons p raw)
  obtain score idx where p: "p = (score, idx)" by (cases p)
  from Cons.prems Cons.IH show ?case
    unfolding p by (auto split: if_splits sum.splits)
qed

lemma collect_results_refs:
  "collect_results fs raw = Inr rs \<Longrightarrow> list_all (\<lambda>(faq, score). faq \<in> set fs) rs"
proof (induction raw arbitrary: rs)
  case Nil
  then show ?case by simp
next
  case (Cons p raw)
  obtain score idx where p: "p = (score, idx)" by (cases p)
  from Cons.prems Cons.IH show ?case
    unfolding p
    by (auto split: if_splits sum.splits simp: list_getitem_def Let_def)
qed

lemma collect_results_in_range:
  "list_all (\<lambda>(score, idx). 0 \<le> idx \<and> idx < int (length fs)) raw \<Longrightarrow>
   collect_results fs raw = Inr (map (\<lambda>(score, idx). (fs ! nat idx, score)) raw)"
proof (induction raw)
  case Nil
  then show ?case by simp
next
  case (Cons p raw)
  obtain score idx where p: "p = (score, idx)" by (cases p)
  from Cons show ?case
    unfolding p by (simp add: list_getitem_def)
qed

text \<open>A row label at or beyond the end of the entries is dropped.\<close>

lemma collect_results_beyond:
  "int (length fs) \<le> idx \<Longrightarrow> collect_results fs ((score, idx) # raw) = collect_results fs raw"
  by simp

text \<open>
  The label \<open>-1\<close> is below the length of the entries, so the guard lets it through:
  it reads the last entry, and raises when there is no entry.
\<close>

lemma collect_results_sentinel:
  "collect_results fs [(score, - 1)] = (if fs = [] then Inl IndexError else Inr [(last fs, score)])"
  by (cases fs rule: rev_cases) (auto simp: list_getitem_def Let_def nth_append)

lemma search_at_most_k:
  "search X s query k = Inr (rs, s') \<Longrightarrow> length rs \<le> k"
  unfolding search_def Let_def
  by (auto split: sum.splits option.splits if_splits
      dest!: collect_results_length simp: IndexFlatIP_search_length)

lemma IndexFlatIP_search_labels:
  assumes "k \<le> length rows"
  shows "list_all (\<lambda>(score, idx). 0 \<le> idx \<and> idx < int (length rows))
           (IndexFlatIP_search X rows q k)"
proof -
  let ?scored = "zip (map (inner_product X q) rows) (map int [0 ..< length rows])"
  have top: "IndexFlatIP_search X rows q k
               = take k (rev (sort_key (\<lambda>(score, idx). score) ?scored))"
    using assms by (simp add: IndexFlatIP_search_def Let_def)
  have "set (take k (rev (sort_key (\<lambda>(score, idx). score) ?scored))) \<subseteq> set ?scored"
    using set_take_subset[of k "rev (sort_key (\<lambda>(score, idx). score) ?scored)"] by simp
  moreover have "\<forall>p \<in> set ?scored. 0 \<le> snd p \<and> snd p < int (length rows)"
    by (auto dest!: set_zip_rightD)
  ultimately show ?thesis
    unfolding top list_all_iff by (auto simp: case_prod_beta)
qed

text \<open>With as many entries as rows and \<open>k\<close> within the rows, \<open>k\<close> results come back.\<close>

lemma search_consistent_exact:
  assumes "index s = Some rows" "length (faqs s) = length rows" "0 < k" "k \<le> length rows"
  shows "\<exists>rs s'. search X s query k = Inr (rs, s') \<and> length rs = k"
proof -
  let ?raw = "IndexFlatIP_search X rows (astype_float32 X (normalize_L2 X (encode X query))) k"
  have "list_all (\<lambda>(score, idx). 0 \<le> idx \<and> idx < int (length (faqs s))) ?raw"
    using IndexFlatIP_search_labels[OF assms(4)] assms(2) by simp
  from collect_results_in_range[OF this] assms(1,3) show ?thesis
    by (simp add: search_def ensure_index_def Let_def IndexFlatIP_search_length)
qed

lemma search_inv:
  assumes "search X s query k = Inr (rs, s')" "refs_ok s"
  shows "refs_ok s' \<and> prefix (heap s) (heap s')
     \<and> list_all (\<lambda>(faq, score). faq < length (heap s')) rs
     \<and> (index s \<noteq> None \<longrightarrow> faqs s' = faqs s \<and> heap s' = heap s)"
proof -
  from assms(1) obtain s1 where e: "ensure_index X s = Inr s1"
    and s': "s' = s1\<lparr>encode_log := encode_log s1 @ [[query]]\<rparr>"
    and c: "collect_results (faqs s1) (IndexFlatIP_search X (the (index s1))
               (astype_float32 X (normalize_L2 X (encode X query))) k) = Inr rs"
    by (auto simp: search_def Let_def split: sum.splits option.splits if_splits)
  from ensure_index_inv[OF e assms(2)] collect_results_refs[OF c] show ?thesis
    unfolding s' by (auto simp: refs_ok_def list_all_iff)
qed

subsection \<open>The loop of \<^verbatim>\<open>get_relevant_faqs\<close>\<close>

lemma relevant_loop_eq:
  "list_all (\<lambda>(faq, score). faq < length h) rs \<Longrightarrow>
   relevant_loop rs t h =
     ([length h ..< length h + length (relevant_spec t (map (\<lambda>(faq, score). (h ! faq, score)) rs))],
      h @ relevant_spec t (map (\<lambda>(faq, score). (h ! faq, score)) rs))"
proof (induction rs arbitrary: h)
  case Nil
  then show ?case by (simp add: relevant_spec_def)
next
  case (Cons p rs)
  obtain faq score where p: "p = (faq, score)" by (cases p)
  show ?case
  proof (cases "score \<ge> t")
    case False
    with Cons show ?thesis
      unfolding p by (simp add: relevant_spec_def)
  next
    case True
    let ?c = "AList.update ''similarity_score'' (JFloat score) (h ! faq)"
    from Cons.prems have ok: "list_all (\<lambda>(faq, score). faq < length (h @ [?c])) rs"
      unfolding p by (auto simp: list_all_iff)
    from Cons.prems have same:
      "map (\<lambda>(faq, score). ((h @ [?c]) ! faq, score)) rs = map (\<lambda>(faq, score). (h ! faq, score)) rs"
      unfolding p by (auto simp: list_all_iff nth_append)
    have "[length h ..< Suc (length h + n)] = length h # [Suc (length h) ..< Suc (length h + n)]"
      for n by (simp add: upt_conv_Cons)
    with Cons.IH[OF ok] True show ?thesis
      unfolding p same
      by (simp add: relevant_spec_def annotate_def)
  qed
qed

lemma get_relevant_faqs_Inl:
  "search X s query 5 = Inl e \<Longrightarrow> get_relevant_faqs X s query t = Inl e"
  by (simp add: get_relevant_faqs_def)

lemma get_relevant_faqs_Inr:
  assumes "search X s query 5 = Inr (rs, s1)" "refs_ok s"
  shows "get_relevant_faqs X s query t =
     Inr ([length (heap s1) ..<
             length (heap s1) + length (relevant_spec t (returned_results (rs, s1)))],
          s1\<lparr>heap := heap s1 @ relevant_spec t (returned_results (rs, s1))\<rparr>)"
proof -
  from search_inv[OF assms] have "list_all (\<lambda>(faq, score). faq < length (heap s1)) rs"
    by simp
  from relevant_loop_eq[OF this] assms(1) show ?thesis
    by (simp add: get_relevant_faqs_def returned_results_def)
qed

lemma returned_entries_fresh:
  "returned_entries ([length h ..< length h + length ds], s\<lparr>heap := h @ ds\<rparr>) = ds"
  by (simp add: returned_entries_def nth_fresh)

subsection \<open>Assembling the entries and building the index\<close>


lemma combined_texts_length:
  "combined_texts X ds = Inr texts \<Longrightarrow> length texts = length ds"
  by (induction ds arbitrary: texts) (auto split: sum.splits)


lemma load_faqs_entries:
  "faqs s = [] \<Longrightarrow> entries (snd (load_faqs s)) = source_content (faq_json s)"
  by (auto simp: load_faqs_def alloc_def entries_def source_content_def nth_fresh
      split: source.splits)

lemma refs_ok_load_faqs: "faqs s = [] \<Longrightarrow> refs_ok (snd (load_faqs s))"
  by (auto simp: load_faqs_def alloc_def refs_ok_def list_all_iff split: source.splits)

lemma load_order_data_entries:
  assumes "load_order_data X s = (r, s')" "refs_ok s"
  shows "entries (s'\<lparr>faqs := faqs s' @ r\<rparr>)
           = entries s @ map (order_faq X) (source_content (order_json s))"
proof (cases "order_json s")
  case (Content orders)
  with assms(1) have r: "r = [length (heap s) ..< length (heap s) + length (map (order_faq X) orders)]"
    and s': "s' = s\<lparr>heap := heap s @ map (order_faq X) orders\<rparr>"
    by (auto simp: load_order_data_def alloc_def)
  from assms(2) have "list_all (\<lambda>a. a < length (heap s)) (faqs s)" by (simp add: refs_ok_def)
  from map_nth_append_old[OF this] show ?thesis
    unfolding r s' entries_def using Content nth_fresh[of "heap s" "map (order_faq X) orders"]
    by (simp add: source_content_def)
qed (use assms in \<open>auto simp: load_order_data_def entries_def source_content_def\<close>)

lemma create_embeddings_entries:
  assumes "create_embeddings X s = Inr (emb, s')" "refs_ok s"
  shows "entries s' = (if faqs s = [] then source_content (faq_json s) else entries s)
             @ map (order_faq X) (source_content (order_json s))"
    and "\<exists>texts. combined_texts X (entries s') = Inr texts \<and>
           encode_log s' = encode_log s @ [texts] \<and> emb = map (encode X) texts"
proof -
  define s1 where "s1 = (if faqs s = [] then snd (load_faqs s) else s)"
  obtain r s2 where l: "load_order_data X s1 = (r, s2)" by (cases "load_order_data X s1")
  have ok1: "refs_ok s1" using assms(2) refs_ok_load_faqs[of s] by (simp add: s1_def)
  have e1: "entries s1 = (if faqs s = [] then source_content (faq_json s) else entries s)"
    using load_faqs_entries[of s] by (simp add: s1_def)
  have o1: "order_json s1 = order_json s" "encode_log s1 = encode_log s"
    by (auto simp: s1_def load_faqs_def alloc_def split: source.splits)
  have l2: "encode_log s2 = encode_log s1"
    using l by (auto simp: load_order_data_def alloc_def split: source.splits)
  from assms(1) obtain texts where
    t: "combined_texts X (entries (s2\<lparr>faqs := faqs s2 @ r\<rparr>)) = Inr texts"
    and s': "s' = s2\<lparr>faqs := faqs s2 @ r, encode_log := encode_log s2 @ [texts]\<rparr>"
    and emb: "emb = map (encode X) texts"
    unfolding create_embeddings_def s1_def[symmetric] Let_def l
    by (auto split: sum.splits)
  have e': "entries s' = entries (s2\<lparr>faqs := faqs s2 @ r\<rparr>)"
    unfolding s' by (simp add: entries_def)
  show "entries s' = (if faqs s = [] then source_content (faq_json s) else entries s)
             @ map (order_faq X) (source_content (order_json s))"
    unfolding e' load_order_data_entries[OF l ok1] e1 o1 ..
  show "\<exists>texts. combined_texts X (entries s') = Inr texts \<and>
           encode_log s' = encode_log s @ [texts] \<and> emb = map (encode X) texts"
    using t emb unfolding e' unfolding s' by (simp add: l2 o1)
qed


lemma load_faqs_frame:
  "files (snd (load_faqs s)) = files s \<and> index_path (snd (load_faqs s)) = index_path s \<and>
   index (snd (load_faqs s)) = index s \<and> dirs (snd (load_faqs s)) = dirs s"
  by (simp add: load_faqs_def alloc_def split: source.splits)

lemma load_order_data_frame:
  "files (snd (load_order_data X s)) = files s \<and>
   index_path (snd (load_order_data X s)) = index_path s \<and>
   index (snd (load_order_data X s)) = index s \<and> dirs (snd (load_order_data X s)) = dirs s"
  by (simp add: load_order_data_def alloc_def split: source.splits)

lemma create_embeddings_frame:
  assumes "create_embeddings X s = Inr (emb, s')"
  shows "files s' = files s \<and> index_path s' = index_path s \<and> index s' = index s \<and>
         dirs s' = dirs s"
proof -
  define s1 where "s1 = (if faqs s = [] then snd (load_faqs s) else s)"
  obtain r s2 where l: "load_order_data X s1 = (r, s2)" by (cases "load_order_data X s1")
  from assms obtain texts where
    s': "s' = s2\<lparr>faqs := faqs s2 @ r, encode_log := encode_log s2 @ [texts]\<rparr>"
    unfolding create_embeddings_def s1_def[symmetric] Let_def l
    by (auto split: sum.splits)
  have 1: "files s1 = files s \<and> index_path s1 = index_path s \<and> index s1 = index s \<and>
      dirs s1 = dirs s"
    using load_faqs_frame[of s] by (simp add: s1_def)
  from load_order_data_frame[of X s1] l 1 show ?thesis
    unfolding s' by simp
qed

lemma build_index_frame:
  assumes "build_index X s = Inr (rows, s')"
  shows "index s' = Some rows \<and> files s' = files s \<and> index_path s' = index_path s \<and>
         dirs s' = dirs s"
proof -
  from assms obtain emb s1 where c: "create_embeddings X s = Inr (emb, s1)"
    and s': "s' = s1\<lparr>index := Some rows\<rparr>"
    by (auto simp: build_index_def Let_def split: sum.splits if_splits)
  from create_embeddings_frame[OF c] show ?thesis unfolding s' by simp
qed

lemma build_index_entries:
  assumes "build_index X s = Inr (rows, s')" "refs_ok s"
  shows "entries s' = (if faqs s = [] then source_content (faq_json s) else entries s)
             @ map (order_faq X) (source_content (order_json s))"
    and "\<exists>texts. combined_texts X (entries s') = Inr texts \<and>
           encode_log s' = encode_log s @ [texts] \<and>
           rows = map (\<lambda>t. astype_float32 X (normalize_L2 X (encode X t))) texts"
    and "index s' = Some rows" and "files s' = files s" and "index_path s' = index_path s"
proof -
  from assms(1) obtain emb s1 where c: "create_embeddings X s = Inr (emb, s1)"
    by (cases "create_embeddings X s") (auto simp: build_index_def)
  from assms(1) c have ne: "emb \<noteq> []"
    by (auto simp: build_index_def split: if_splits)
  from assms(1) have "Inr (map (\<lambda>v. astype_float32 X (normalize_L2 X v)) emb,
      s1\<lparr>index := Some (map (\<lambda>v. astype_float32 X (normalize_L2 X v)) emb)\<rparr>)
        = (Inr (rows, s') :: error + ('a list \<times> 'a engine))"
    unfolding build_index_def c using ne by (auto simp: Let_def)
  then have rows: "rows = map (\<lambda>v. astype_float32 X (normalize_L2 X v)) emb"
    and s': "s' = s1\<lparr>index := Some rows\<rparr>"
    by auto
  have e: "entries s' = entries s1" unfolding s' by (simp add: entries_def)
  from create_embeddings_entries[OF c assms(2)]
  show "entries s' = (if faqs s = [] then source_content (faq_json s) else entries s)
             @ map (order_faq X) (source_content (order_json s))"
    and "\<exists>texts. combined_texts X (entries s') = Inr texts \<and>
           encode_log s' = encode_log s @ [texts] \<and>
           rows = map (\<lambda>t. astype_float32 X (normalize_L2 X (encode X t))) texts"
    unfolding e rows unfolding s' by (auto simp: comp_def)
  show "index s' = Some rows" unfolding s' by simp
  from create_embeddings_frame[OF c] show "files s' = files s" "index_path s' = index_path s"
    unfolding s' by simp_all
qed

text \<open>Over no entry the build raises, after the encoder got the empty batch.\<close>

lemma build_index_no_entry:
  assumes "create_embeddings X s = Inr (emb, s')" "entries s' = []"
  shows "emb = [] \<and> encode_log s' = encode_log s @ [[]] \<and> build_index X s = Inl IndexError"
proof -
  define s1 where "s1 = (if faqs s = [] then snd (load_faqs s) else s)"
  obtain r s2 where l: "load_order_data X s1 = (r, s2)" by (cases "load_order_data X s1")
  have o1: "encode_log s1 = encode_log s"
    by (auto simp: s1_def load_faqs_def alloc_def split: source.splits)
  have l2: "encode_log s2 = encode_log s1"
    using l by (auto simp: load_order_data_def alloc_def split: source.splits)
  from assms(1) obtain texts where
    t: "combined_texts X (entries (s2\<lparr>faqs := faqs s2 @ r\<rparr>)) = Inr texts"
    and s': "s' = s2\<lparr>faqs := faqs s2 @ r, encode_log := encode_log s2 @ [texts]\<rparr>"
    and emb: "emb = map (encode X) texts"
    unfolding create_embeddings_def s1_def[symmetric] Let_def l
    by (auto split: sum.splits)
  from assms(2) have "entries (s2\<lparr>faqs := faqs s2 @ r\<rparr>) = []"
    unfolding s' by (simp add: entries_def)
  with t have "texts = []" by simp
  with emb s' l2 o1 assms(1) show ?thesis
    by (simp add: build_index_def)
qed

subsection \<open>Saving and loading\<close>

lemma load_index_after_save:
  assumes "index s = Some rows" "faq_data_path (index_path s) \<noteq> index_path s"
    "save_index s = Inr s1"
  shows "load_index s1 = (True, s1\<lparr>heap := heap s1 @ entries s1,
            faqs := [length (heap s1) ..< length (heap s1) + length (entries s1)]\<rparr>)"
  using assms
  by (auto simp: save_index_def load_index_def alloc_def Let_def entries_def
      split: if_splits sum.splits)

lemma entries_reloaded:
  "entries (s\<lparr>heap := heap s @ ds, faqs := [length (heap s) ..< length (heap s) + length ds]\<rparr>) = ds"
  by (simp add: entries_def nth_fresh)

lemma load_index_twice:
  assumes "load_index s = (True, s1)"
  shows "load_index s1 = (True, s1\<lparr>heap := heap s1 @ entries s1,
            faqs := [length (heap s1) ..< length (heap s1) + length (entries s1)]\<rparr>)"
  using assms
  by (auto simp: load_index_def alloc_def Let_def entries_def nth_fresh
      split: option.splits artifact.splits)

subsection \<open>Running the engine in the small world\<close>

lemma order_faq_pizza: "order_faq toy_externals pizza_order = pizza_faq"
  by (simp add: order_faq_def pizza_order_def pizza_faq_def items_text_def str_int_def
      digits_nat.simps)

lemma faq_data_path_default: "faq_data_path default_path = ''data/faiss_index_faqs.pkl''"
  by (simp add: default_path_def faq_data_path_def replace_def replace_from.simps)

lemma dirname_default: "dirname default_path = ''data''"
  by (simp add: default_path_def dirname_def)

lemma corpus_texts_eq:
  "combined_texts toy_externals [refund_faq, hours_faq, pizza_faq] = Inr corpus_texts"
  by (simp add: refund_faq_def hours_faq_def pizza_faq_def corpus_texts_def dict_getitem_def)

lemma encode_corpus:
  "map (\<lambda>t. astype_float32 toy_externals (normalize_L2 toy_externals (encode toy_externals t)))
     corpus_texts = [1, 0, - 1]"
  by (simp add: corpus_texts_def toy_externals_def)

lemma corpus_texts_nonempty: "corpus_texts \<noteq> []"
  by (simp add: corpus_texts_def)

lemma makedirs_data: "makedirs ''data'' {''data''} = Inr {''data''}"
  by (simp add: makedirs_def)

lemma build_fresh: "build_index toy_externals fresh_engine = Inr ([1, 0, - 1], built_engine)"
  using encode_corpus corpus_texts_nonempty
  by (simp add: build_index_def create_embeddings_def load_faqs_def load_order_data_def
      alloc_def entries_def Let_def new_engine_def fresh_engine_def built_engine_def
      order_faq_pizza corpus_texts_eq comp_def del: combined_texts.simps)

lemma refs_ok_fresh: "refs_ok fresh_engine"
  by (simp add: refs_ok_def fresh_engine_def new_engine_def)

lemma refs_ok_built: "refs_ok built_engine"
  by (simp add: refs_ok_def built_engine_def)

lemma entries_built: "entries built_engine = [refund_faq, hours_faq, pizza_faq]"
  by (simp add: entries_def built_engine_def)

lemma dirname_default_faq: "dirname ''data/faiss_index_faqs.pkl'' = ''data''"
  by (simp add: dirname_def)

text \<open>
  The sibling path of \<^verbatim>\<open>a.bin/i.bin\<close> lies in a directory that nothing creates, and
  \<^verbatim>\<open>save_index\<close> raises there.
\<close>

lemma save_index_bin_directory:
  "faq_data_path ''a.bin/i.bin'' = ''a_faqs.pkl/i_faqs.pkl'' \<and>
   save_index bin_directory_engine = Inl FileNotFoundError"
proof -
  have fp: "faq_data_path ''a.bin/i.bin'' = ''a_faqs.pkl/i_faqs.pkl''"
    by (simp add: faq_data_path_def replace_def replace_from.simps)
  have d: "dirname ''a.bin/i.bin'' = ''a.bin''" "dirname ''a_faqs.pkl/i_faqs.pkl'' = ''a_faqs.pkl''"
    by (simp_all add: dirname_def)
  have "save_index bin_directory_engine = Inl FileNotFoundError"
    by (simp add: save_index_def bin_directory_engine_def built_engine_def fp d makedirs_def)
  with fp show ?thesis by simp
qed

lemma save_built: "save_index built_engine = Inr ready_engine"
  by (simp add: save_index_def built_engine_def ready_engine_def dirname_default
      faq_data_path_default dirname_default_faq makedirs_data entries_def)

lemma load_fresh: "load_index fresh_engine = (False, fresh_engine)"
  by (simp add: load_index_def fresh_engine_def new_engine_def)

lemma initialize_fresh: "initialize toy_externals fresh_engine = Inr ready_engine"
  by (simp add: initialize_def load_fresh build_fresh save_built)

lemma refs_ok_ready: "refs_ok ready_engine"
  by (simp add: refs_ok_def ready_engine_def built_engine_def)

lemma search_ready:
  "search toy_externals ready_engine ''refund time'' 5 =
     Inr ([(0, 1), (1, 0), (2, - 1), (2, lowest_float), (2, lowest_float)], searched_engine)"
  by (simp add: search_def ensure_index_def ready_engine_def built_engine_def searched_engine_def
      toy_externals_def IndexFlatIP_search_def list_getitem_def Let_def lowest_float_def
      eval_nat_numeral upt_conv_Cons)

lemma results_ready:
  "returned_results ([(0, 1), (1, 0), (2, - 1), (2, lowest_float), (2, lowest_float)], searched_engine)
     = [(refund_faq, 1), (hours_faq, 0), (pizza_faq, - 1),
        (pizza_faq, lowest_float), (pizza_faq, lowest_float)]"
  by (simp add: returned_results_def searched_engine_def ready_engine_def built_engine_def)

lemma relevant_spec_ready:
  "relevant_spec (3 / 10) [(refund_faq, 1), (hours_faq, 0), (pizza_faq, - 1),
        (pizza_faq, lowest_float), (pizza_faq, lowest_float)] = [refund_scored]"
  by (simp add: relevant_spec_def annotate_def lowest_float_def refund_scored_def
      refund_faq_def)

lemma relevant_ready:
  "get_relevant_faqs toy_externals ready_engine ''refund time'' (3 / 10) =
     Inr ([3], searched_engine\<lparr>heap := heap searched_engine @ [refund_scored]\<rparr>)"
proof -
  have len: "length (heap searched_engine) = 3"
    by (simp add: searched_engine_def ready_engine_def built_engine_def)
  have "[3 ..< 4] = [3::nat]" by (simp add: upt_conv_Cons)
  with get_relevant_faqs_Inr[OF search_ready refs_ok_ready, of "3 / 10"] show ?thesis
    unfolding results_ready relevant_spec_ready len by simp
qed

lemma relevant_spec_ready_low:
  "relevant_spec (- 2) [(refund_faq, 1), (hours_faq, 0), (pizza_faq, - 1),
        (pizza_faq, lowest_float), (pizza_faq, lowest_float)]
     = [refund_scored, hours_scored, pizza_scored]"
  by (simp add: relevant_spec_def annotate_def lowest_float_def refund_scored_def
      pizza_scored_def hours_scored_def refund_faq_def pizza_faq_def hours_faq_def)

section \<open>The claims\<close>

subsection \<open>Cardinality of \<^verbatim>\<open>search\<close>\<close>

text \<open>
  \<^bold>\<open>C1\<close>. The claim: \<^verbatim>\<open>search(q, k)\<close> returns at most \<open>k\<close> results, and exactly
  \<open>min(k, row_count)\<close> of them when the index is not empty (an index with fewer than
  \<open>k\<close> rows gives all its rows and no more). The first half holds
  (\<open>search_at_most_k\<close>), and so does the second while \<open>k\<close> stays within the rows
  (\<open>search_consistent_exact\<close>). Beyond the rows it fails: the engine built from a single
  FAQ entry has an index of one row, and a search with \<open>k = 3\<close> returns three results,
  the one entry with its score and then the same entry twice more with the lowest float,
  because the guard \<^verbatim>\<open>idx < len(self.faqs)\<close> lets the label \<open>-1\<close> of the two missing
  neighbours through.
\<close>

theorem search_one_row_returns_three:
  "build_index toy_externals one_faq_fresh = Inr ([1], one_faq_engine) \<and>
   search toy_externals one_faq_engine ''refund time'' 3 =
     Inr ([(0, 1), (0, lowest_float), (0, lowest_float)],
          one_faq_engine\<lparr>encode_log := encode_log one_faq_engine @ [[''refund time'']]\<rparr>)"
proof -
  have "build_index toy_externals one_faq_fresh = Inr ([1], one_faq_engine)"
    by (simp add: build_index_def create_embeddings_def load_faqs_def load_order_data_def
        alloc_def entries_def Let_def new_engine_def one_faq_fresh_def one_faq_engine_def
        refund_faq_def dict_getitem_def toy_externals_def)
  moreover have "search toy_externals one_faq_engine ''refund time'' 3 =
     Inr ([(0, 1), (0, lowest_float), (0, lowest_float)],
          one_faq_engine\<lparr>encode_log := encode_log one_faq_engine @ [[''refund time'']]\<rparr>)"
    by (simp add: search_def ensure_index_def one_faq_engine_def toy_externals_def
        IndexFlatIP_search_def list_getitem_def Let_def lowest_float_def numeral_3_eq_3)
  ultimately show ?thesis by (rule conjI)
qed

subsection \<open>Row labels outside the entries\<close>

text \<open>
  \<^bold>\<open>C2\<close>. The claim: \<^verbatim>\<open>search\<close> drops every row label outside
  \<open>0 .. len(entries) - 1\<close>, the sentinel labels of missing neighbours included, never
  raises, and never returns an entry that is not at the returned row. Labels at or beyond
  the end are dropped (\<open>collect_results_beyond\<close>); the sentinel \<open>-1\<close> is not
  (\<open>collect_results_sentinel\<close>). With three entries over three rows and \<open>k = 4\<close>
  the fourth result is the last entry, row \<open>2\<close>, returned for the label \<open>-1\<close>; with no
  entry over a zero-row index the search raises \<^verbatim>\<open>IndexError\<close>.
\<close>

theorem search_sentinel_reads_last_entry:
  "search toy_externals built_engine ''refund time'' 4 =
     Inr ([(0, 1), (1, 0), (2, - 1), (2, lowest_float)],
          built_engine\<lparr>encode_log := encode_log built_engine @ [[''refund time'']]\<rparr>) \<and>
   search toy_externals empty_built ''refund time'' 1 = Inl IndexError"
proof -
  have "search toy_externals built_engine ''refund time'' 4 =
     Inr ([(0, 1), (1, 0), (2, - 1), (2, lowest_float)],
          built_engine\<lparr>encode_log := encode_log built_engine @ [[''refund time'']]\<rparr>)"
    by (simp add: search_def ensure_index_def built_engine_def
        toy_externals_def IndexFlatIP_search_def list_getitem_def Let_def lowest_float_def
        eval_nat_numeral upt_conv_Cons)
  moreover have "search toy_externals empty_built ''refund time'' 1 = Inl IndexError"
    by (simp add: search_def ensure_index_def empty_built_def empty_engine_def new_engine_def
        toy_externals_def IndexFlatIP_search_def list_getitem_def Let_def)
  ultimately show ?thesis by (rule conjI)
qed

subsection \<open>Building from no entry\<close>

text \<open>
  \<^bold>\<open>C3\<close>. The claim: with an empty entry sequence, the build yields a zero-row index
  without failing and without handing the empty batch to the encoder, and every search
  against that index returns the empty sequence. The sources degrade to no entry without
  an error, but nothing short-circuits after that: at the engine with empty sources
  \<^verbatim>\<open>create_embeddings\<close> hands the empty batch to the encoder, and \<^verbatim>\<open>build_index\<close>,
  and with it \<^verbatim>\<open>initialize\<close>, raises \<^verbatim>\<open>IndexError\<close> when it normalises what
  the encoder answered. No zero-row index is returned.
\<close>

theorem build_index_empty_raises:
  "create_embeddings toy_externals empty_engine
     = Inr ([], empty_engine\<lparr>encode_log := [[]]\<rparr>) \<and>
   encode_log empty_engine = [] \<and>
   build_index toy_externals empty_engine = Inl IndexError \<and>
   initialize toy_externals empty_engine = Inl IndexError"
proof -
  have c: "create_embeddings toy_externals empty_engine
     = Inr ([], empty_engine\<lparr>encode_log := [[]]\<rparr>)"
    by (simp add: create_embeddings_def load_faqs_def load_order_data_def
        alloc_def entries_def Let_def new_engine_def empty_engine_def)
  have l: "encode_log empty_engine = []"
    by (simp add: empty_engine_def new_engine_def)
  have b: "build_index toy_externals empty_engine = Inl IndexError"
    by (simp add: build_index_def c)
  have ld: "load_index empty_engine = (False, empty_engine)"
    by (simp add: load_index_def empty_engine_def new_engine_def)
  have i: "initialize toy_externals empty_engine = Inl IndexError"
    by (simp add: initialize_def ld b)
  from c l b i show ?thesis by simp
qed

subsection \<open>Loading the persisted pair\<close>




subsection \<open>Building twice\<close>

text \<open>
  \<^bold>\<open>C5\<close>. The claim: a rebuild replaces the entry sequence as a unit and never changes
  the sequence built before, so that two builds from the same sources give the same
  sequence. The first build of the engine with two FAQ entries and one order gives three
  entries; a second build on the result, from the same sources, gives four: the order's
  entry is appended once more to the sequence the first build left.
\<close>

theorem build_index_twice_counterexample:
  "build_index toy_externals fresh_engine = Inr ([1, 0, - 1], built_engine) \<and>
   build_index toy_externals built_engine = Inr ([1, 0, - 1, - 1], rebuilt_engine) \<and>
   faq_json built_engine = faq_json fresh_engine \<and>
   order_json built_engine = order_json fresh_engine \<and>
   entries built_engine = [refund_faq, hours_faq, pizza_faq] \<and>
   entries rebuilt_engine = [refund_faq, hours_faq, pizza_faq, pizza_faq]"
proof -
  have t: "combined_texts toy_externals [refund_faq, hours_faq, pizza_faq, pizza_faq]
             = Inr (corpus_texts @ [corpus_texts ! 2])"
    by (simp add: refund_faq_def hours_faq_def pizza_faq_def corpus_texts_def dict_getitem_def)
  have e: "map (\<lambda>t. astype_float32 toy_externals (normalize_L2 toy_externals (encode toy_externals t)))
     (corpus_texts @ [corpus_texts ! 2]) = [1, 0, - 1, - 1]"
    by (simp add: corpus_texts_def toy_externals_def)
  have b2: "build_index toy_externals built_engine = Inr ([1, 0, - 1, - 1], rebuilt_engine)"
    using e
    by (simp add: build_index_def create_embeddings_def load_order_data_def
        alloc_def entries_def Let_def built_engine_def rebuilt_engine_def
        order_faq_pizza t comp_def del: combined_texts.simps)
  have s: "faq_json built_engine = faq_json fresh_engine \<and>
      order_json built_engine = order_json fresh_engine"
    by (simp add: built_engine_def fresh_engine_def new_engine_def)
  have e2: "entries rebuilt_engine = [refund_faq, hours_faq, pizza_faq, pizza_faq]"
    by (simp add: entries_def rebuilt_engine_def built_engine_def)
  from build_fresh b2 s entries_built e2 show ?thesis by simp
qed

text \<open>
  \<^bold>\<open>C5\<close>, amended. A build keeps the entries the engine already holds, unchanged and in
  place, as the beginning of the new sequence, and changes no dictionary allocated
  before; the index it builds has one row per entry of the new sequence. Started with
  no entry, it yields the FAQ entries followed by the entries derived from the orders, so
  two builds that each start with no entry and read the same sources agree.
\<close>

theorem build_index_extends_entries:
  assumes "refs_ok s" "build_index X s = Inr (rows, s')"
  shows "prefix (entries s) (entries s') \<and> prefix (heap s) (heap s') \<and>
         length rows = length (entries s') \<and>
         (faqs s = [] \<longrightarrow>
            entries s' = source_content (faq_json s)
                           @ map (order_faq X) (source_content (order_json s)))"
proof -
  note e = build_index_entries[OF assms(2,1)]
  from e(1) have "prefix (entries s) (entries s')"
    by (cases "faqs s = []") (auto simp: entries_def)
  moreover from e(2) have "length rows = length (entries s')"
    by (auto dest: combined_texts_length)
  moreover from build_index_inv[OF assms(2,1)] have "prefix (heap s) (heap s')" by simp
  ultimately show ?thesis using e(1) by simp
qed

theorem build_index_extends_entries_witness:
  "refs_ok fresh_engine \<and>
   build_index toy_externals fresh_engine = Inr ([1, 0, - 1], built_engine) \<and>
   faqs fresh_engine = [] \<and>
   prefix (entries fresh_engine) (entries built_engine) \<and>
   prefix (heap fresh_engine) (heap built_engine) \<and>
   length [1, 0, - 1 :: real] = length (entries built_engine) \<and>
   entries built_engine = source_content (faq_json fresh_engine)
       @ map (order_faq toy_externals) (source_content (order_json fresh_engine))"
proof -
  have f: "faqs fresh_engine = []"
    by (simp add: fresh_engine_def new_engine_def)
  from build_index_extends_entries[OF refs_ok_fresh build_fresh] f refs_ok_fresh build_fresh
  show ?thesis by blast
qed

subsection \<open>\<^verbatim>\<open>get_relevant_faqs\<close> against \<^verbatim>\<open>search\<close>\<close>

text \<open>
  \<^bold>\<open>C6\<close>. For every query and threshold, what \<^verbatim>\<open>get_relevant_faqs\<close> returns is what
  \<^verbatim>\<open>search\<close> with \<open>k = 5\<close> returns, without the results whose score is below the
  threshold, every remaining entry carrying \<^verbatim>\<open>similarity_score\<close> set to its score, in
  the order of \<^verbatim>\<open>search\<close>; an error of \<^verbatim>\<open>search\<close> is passed on as it is, and when
  no result clears the threshold the answer is the empty list, not an error.
\<close>

theorem get_relevant_faqs_filters_search:
  assumes "refs_ok s"
  shows "map_sum id returned_entries (get_relevant_faqs X s query threshold)
           = map_sum id (\<lambda>r. relevant_spec threshold (returned_results r)) (search X s query 5)"
proof (cases "search X s query 5")
  case (Inl e)
  then show ?thesis by (simp add: get_relevant_faqs_Inl)
next
  case (Inr r)
  obtain rs s1 where r: "r = (rs, s1)" by (cases r)
  from get_relevant_faqs_Inr[OF Inr[unfolded r] assms, of threshold] Inr show ?thesis
    unfolding r by (simp add: returned_entries_fresh)
qed

theorem get_relevant_faqs_filters_search_witness:
  "refs_ok ready_engine \<and>
   map_sum id returned_entries (get_relevant_faqs toy_externals ready_engine ''refund time'' (3 / 10))
     = map_sum id (\<lambda>r. relevant_spec (3 / 10) (returned_results r))
         (search toy_externals ready_engine ''refund time'' 5) \<and>
   map_sum id (\<lambda>r. relevant_spec (3 / 10) (returned_results r))
         (search toy_externals ready_engine ''refund time'' 5)
     = Inr [refund_scored]"
proof -
  note t = get_relevant_faqs_filters_search[OF refs_ok_ready,
      of toy_externals "''refund time''" "3 / 10"]
  have v: "map_sum id (\<lambda>r. relevant_spec (3 / 10) (returned_results r))
         (search toy_externals ready_engine ''refund time'' 5)
     = Inr [refund_scored]"
    by (simp only: search_ready map_sum.simps results_ready relevant_spec_ready)
  show ?thesis by (rule conjI[OF refs_ok_ready conjI[OF t v]])
qed

subsection \<open>Thresholds\<close>

text \<open>
  \<^bold>\<open>C8\<close>. For thresholds \<open>t' \<le> t\<close>, whenever \<^verbatim>\<open>search\<close> with \<open>k = 5\<close> (the only
  \<open>k\<close> that \<^verbatim>\<open>get_relevant_faqs\<close> uses) returns, both calls return, every entry
  returned for \<open>t\<close> is returned for \<open>t'\<close>, and the answer for \<open>t\<close> is empty exactly
  when every score of the search is below \<open>t\<close>, in particular when \<open>t\<close> exceeds the
  highest score.
\<close>

theorem relevant_threshold_monotone:
  assumes "refs_ok s" "t' \<le> t" "search X s query 5 = Inr sr"
  shows "\<exists>r r'. get_relevant_faqs X s query t = Inr r \<and>
           get_relevant_faqs X s query t' = Inr r' \<and>
           set (returned_entries r) \<subseteq> set (returned_entries r') \<and>
           (fst r = []) = list_all (\<lambda>(faq, score). score < t) (returned_results sr)"
proof -
  obtain rs s1 where sr: "sr = (rs, s1)" by (cases sr)
  let ?v = "returned_results (rs, s1)"
  note a = get_relevant_faqs_Inr[OF assms(3)[unfolded sr] assms(1), of t]
  note b = get_relevant_faqs_Inr[OF assms(3)[unfolded sr] assms(1), of t']
  have sub: "set (relevant_spec t ?v) \<subseteq> set (relevant_spec t' ?v)"
    using assms(2) by (auto simp: relevant_spec_def)
  have empty: "(relevant_spec t ?v = []) = list_all (\<lambda>(faq, score). score < t) ?v"
    by (auto simp: relevant_spec_def list_all_iff filter_empty_conv)
  have nil: "([length h ..< length h + length ds] = []) = (ds = [])"
    for h ds :: "pydict list" by auto
  show ?thesis
    unfolding a b sr using sub empty
    by (simp add: returned_entries_fresh nil del: set_map upt_eq_Nil_conv)
qed

theorem relevant_threshold_monotone_witness:
  "refs_ok ready_engine \<and> (- 2 :: real) \<le> 3 / 10 \<and>
   search toy_externals ready_engine ''refund time'' 5 =
     Inr ([(0, 1), (1, 0), (2, - 1), (2, lowest_float), (2, lowest_float)], searched_engine) \<and>
   (\<exists>r r'. get_relevant_faqs toy_externals ready_engine ''refund time'' (3 / 10) = Inr r \<and>
           get_relevant_faqs toy_externals ready_engine ''refund time'' (- 2) = Inr r' \<and>
           set (returned_entries r) \<subseteq> set (returned_entries r') \<and>
           (fst r = []) = list_all (\<lambda>(faq, score). score < 3 / 10)
              (returned_results
                ([(0, 1), (1, 0), (2, - 1), (2, lowest_float), (2, lowest_float)],
                 searched_engine)))"
proof -
  have le: "(- 2 :: real) \<le> 3 / 10" by simp
  show ?thesis
    by (rule conjI[OF refs_ok_ready conjI[OF le conjI[OF search_ready
          relevant_threshold_monotone[OF refs_ok_ready le search_ready]]]])
qed

subsection \<open>The stored entries under \<^verbatim>\<open>get_relevant_faqs\<close>\<close>

text \<open>
  \<^bold>\<open>C10\<close>. A call of \<^verbatim>\<open>get_relevant_faqs\<close> changes no dictionary that existed before
  it: the heap of before is the beginning of the heap of after. What it returns are
  dictionaries allocated during the call, none of them an entry of the engine. The
  entries the engine holds after the call are, reference by reference and value by
  value, those that \<^verbatim>\<open>search\<close> left; and when the engine had an index before the
  call, they are those of before the call.
\<close>

theorem get_relevant_faqs_frame:
  assumes "refs_ok s" "get_relevant_faqs X s query t = Inr (out, s2)"
  shows "prefix (heap s) (heap s2) \<and>
         list_all (\<lambda>a. length (heap s) \<le> a \<and> a \<notin> set (faqs s2)) out \<and>
         (\<exists>rs s1. search X s query 5 = Inr (rs, s1) \<and> faqs s2 = faqs s1 \<and>
            entries s2 = entries s1) \<and>
         (index s \<noteq> None \<longrightarrow> faqs s2 = faqs s \<and> entries s2 = entries s)"
proof -
  from assms(2) obtain rs s1 where sr: "search X s query 5 = Inr (rs, s1)"
    by (auto simp: get_relevant_faqs_def split: sum.splits)
  note inv = search_inv[OF sr assms(1)]
  let ?new = "relevant_spec t (returned_results (rs, s1))"
  from get_relevant_faqs_Inr[OF sr assms(1), of t] assms(2)
  have out: "out = [length (heap s1) ..< length (heap s1) + length ?new]"
    and s2: "s2 = s1\<lparr>heap := heap s1 @ ?new\<rparr>"
    by simp_all
  from inv have ok1: "list_all (\<lambda>a. a < length (heap s1)) (faqs s1)" by (simp add: refs_ok_def)
  have e: "entries s2 = entries s1"
    unfolding s2 entries_def using map_nth_append_old[OF ok1] by simp
  have p: "prefix (heap s) (heap s2)"
    using inv unfolding s2 by (auto intro: prefix_order.trans)
  have fresh: "list_all (\<lambda>a. length (heap s) \<le> a \<and> a \<notin> set (faqs s2)) out"
    using inv ok1 unfolding out s2
    by (auto simp: list_all_iff dest: prefix_length_le)
  have same: "index s \<noteq> None \<longrightarrow> faqs s2 = faqs s \<and> entries s2 = entries s"
    using inv e unfolding s2 by (auto simp: entries_def)
  from p fresh same e sr show ?thesis unfolding s2 by auto
qed

theorem get_relevant_faqs_frame_witness:
  "refs_ok ready_engine \<and>
   get_relevant_faqs toy_externals ready_engine ''refund time'' (3 / 10) =
     Inr ([3], searched_engine\<lparr>heap := heap searched_engine @ [refund_scored]\<rparr>) \<and>
   index ready_engine \<noteq> None \<and>
   prefix (heap ready_engine)
     (heap (searched_engine\<lparr>heap := heap searched_engine @ [refund_scored]\<rparr>)) \<and>
   faqs (searched_engine\<lparr>heap := heap searched_engine @ [refund_scored]\<rparr>)
     = faqs ready_engine \<and>
   entries (searched_engine\<lparr>heap := heap searched_engine @ [refund_scored]\<rparr>)
     = entries ready_engine"
proof -
  have i: "index ready_engine \<noteq> None"
    by (simp add: ready_engine_def built_engine_def)
  from get_relevant_faqs_frame[OF refs_ok_ready relevant_ready] i refs_ok_ready relevant_ready
  show ?thesis by blast
qed

subsection \<open>The assembled entries\<close>



subsection \<open>Initialising twice\<close>

text \<open>
  \<^bold>\<open>C9\<close>. The claim: after an \<^verbatim>\<open>initialize\<close> that made the engine ready, a second
  one is a no-op, it does not rebuild and leaves the pair of index and entries as it is.
  \<^verbatim>\<open>initialize\<close> keeps no record of being ready: every call tries
  \<^verbatim>\<open>load_index\<close> first, so the claim rests on \<^verbatim>\<open>save_index\<close> having put the
  entries beside the index. With the index path \<^verbatim>\<open>data/index\<close>, which has no
  \<^verbatim>\<open>.bin\<close> to replace, the entries artifact is written over the index artifact: the
  second call cannot load, builds again (the encoder gets a second batch), and the entry
  of the order is there twice.
\<close>

theorem initialize_twice_plain_path:
  "initialize toy_externals plain_path_engine = Inr plain_path_ready \<and>
   initialize toy_externals plain_path_ready = Inr plain_path_again \<and>
   entries plain_path_ready = [refund_faq, pizza_faq] \<and>
   entries plain_path_again = [refund_faq, pizza_faq, pizza_faq] \<and>
   index plain_path_ready = Some [1, - 1] \<and> index plain_path_again = Some [1, - 1, - 1] \<and>
   length (encode_log plain_path_ready) = 1 \<and> length (encode_log plain_path_again) = 2"
proof -
  have fp: "faq_data_path ''data/index'' = ''data/index''"
    by (simp add: faq_data_path_def replace_def replace_from.simps)
  have dn: "dirname ''data/index'' = ''data''"
    by (simp add: dirname_def)
  have t1: "combined_texts toy_externals [refund_faq, pizza_faq]
              = Inr [corpus_texts ! 0, corpus_texts ! 2]"
    by (simp add: refund_faq_def pizza_faq_def corpus_texts_def dict_getitem_def)
  have t2: "combined_texts toy_externals [refund_faq, pizza_faq, pizza_faq]
              = Inr [corpus_texts ! 0, corpus_texts ! 2, corpus_texts ! 2]"
    by (simp add: refund_faq_def pizza_faq_def corpus_texts_def dict_getitem_def)
  have e: "astype_float32 toy_externals (normalize_L2 toy_externals
               (encode toy_externals (corpus_texts ! 0))) = 1"
    "astype_float32 toy_externals (normalize_L2 toy_externals
               (encode toy_externals (corpus_texts ! 2))) = - 1"
    by (simp_all add: corpus_texts_def toy_externals_def)
  have i1: "initialize toy_externals plain_path_engine = Inr plain_path_ready"
    by (simp add: initialize_def load_index_def build_index_def create_embeddings_def
        load_faqs_def load_order_data_def save_index_def alloc_def entries_def Let_def
        new_engine_def plain_path_engine_def plain_path_ready_def order_faq_pizza
        t1 e fp dn makedirs_data del: combined_texts.simps)
  have i2: "initialize toy_externals plain_path_ready = Inr plain_path_again"
    by (simp add: initialize_def load_index_def build_index_def create_embeddings_def
        load_order_data_def save_index_def alloc_def entries_def Let_def
        plain_path_ready_def plain_path_again_def order_faq_pizza
        t2 e fp dn makedirs_data del: combined_texts.simps)
  have v: "entries plain_path_ready = [refund_faq, pizza_faq] \<and>
      entries plain_path_again = [refund_faq, pizza_faq, pizza_faq] \<and>
      index plain_path_ready = Some [1, - 1] \<and> index plain_path_again = Some [1, - 1, - 1] \<and>
      length (encode_log plain_path_ready) = 1 \<and> length (encode_log plain_path_again) = 2"
    by (simp add: entries_def plain_path_ready_def plain_path_again_def)
  from i1 i2 v show ?thesis by simp
qed

text \<open>
  Where the path of the entries artifact differs from the index path (the default path,
  and every path in which \<^verbatim>\<open>.bin\<close> occurs), a second \<^verbatim>\<open>initialize\<close> after one
  that returned does return, reloads the persisted pair, hands nothing to the encoder,
  writes no file, and leaves the engine with an index and entries equal to those before.
\<close>

lemma initialize_reloads_pair:
  assumes "initialize X s = Inr s1" "faq_data_path (index_path s) \<noteq> index_path s"
  shows "\<exists>s2. initialize X s1 = Inr s2 \<and> index s2 = index s1 \<and> entries s2 = entries s1 \<and>
           encode_log s2 = encode_log s1 \<and> files s2 = files s1"
proof -
  obtain ok s0 where l: "load_index s = (ok, s0)" by (cases "load_index s")
  have reload: "load_index s1 = (True, s1\<lparr>heap := heap s1 @ entries s1,
            faqs := [length (heap s1) ..< length (heap s1) + length (entries s1)]\<rparr>)"
  proof (cases ok)
    case True
    with assms(1) l have "s1 = s0" by (simp add: initialize_def)
    with load_index_twice l True show ?thesis by simp
  next
    case False
    with assms(1) l obtain rows sb where b: "build_index X s0 = Inr (rows, sb)"
      and sv: "save_index sb = Inr s1"
      by (auto simp: initialize_def split: sum.splits)
    have p: "index_path s0 = index_path s"
      using l by (auto simp: load_index_def alloc_def Let_def split: option.splits artifact.splits)
    have "index sb = Some rows" "index_path sb = index_path s0"
      using build_index_frame[OF b] by simp_all
    with load_index_after_save[OF _ _ sv] assms(2) p show ?thesis by simp
  qed
  then show ?thesis
    by (simp add: initialize_def entries_reloaded)
qed

lemma initialize_reloads_pair_default_path:
  "initialize toy_externals fresh_engine = Inr ready_engine \<and>
   faq_data_path (index_path fresh_engine) \<noteq> index_path fresh_engine \<and>
   index ready_engine = Some [1, 0, - 1] \<and>
   entries ready_engine = [refund_faq, hours_faq, pizza_faq] \<and>
   (\<exists>s2. initialize toy_externals ready_engine = Inr s2 \<and> index s2 = index ready_engine \<and>
      entries s2 = entries ready_engine \<and> encode_log s2 = encode_log ready_engine \<and>
      files s2 = files ready_engine)"
proof -
  have p: "faq_data_path (index_path fresh_engine) \<noteq> index_path fresh_engine"
    by (simp add: fresh_engine_def new_engine_def
        faq_data_path_default[unfolded default_path_def] default_path_def)
  have i: "index ready_engine = Some [1, 0, - 1]"
    by (simp add: ready_engine_def built_engine_def)
  have e: "entries ready_engine = [refund_faq, hours_faq, pizza_faq]"
    by (simp add: entries_def ready_engine_def built_engine_def)
  show ?thesis
    by (rule conjI[OF initialize_fresh conjI[OF p conjI[OF i conjI[OF e
          initialize_reloads_pair[OF initialize_fresh p]]]]])
qed

end
